theory Spec2Isabelle
  imports Main
begin

section \<open>Elapsed-time computation of the work timer\<close>

text \<open>
  The timer action (class \<open>WorkTimer\<close>) derives two figures from the list of today's
  checks: the worked seconds and the seconds of the active pause. JavaScript numbers are
  modelled as \<open>int\<close>: time values of \<open>Date\<close> are whole milliseconds, and
  \<open>accumulatedSeconds\<close> is taken as a whole number of seconds. \<open>Math.floor(x / 1000)\<close>
  on a whole \<open>x\<close> is \<open>x div 1000\<close>, which rounds towards minus infinity on \<open>int\<close>.
\<close>

datatype WorkStatusType = online | paused | offline

text \<open>\<open>EmployeeCheckMoment\<close>: \<open>date: string | null\<close>.\<close>

record EmployeeCheckMoment =
  date :: "string option"

text \<open>
  \<open>EmployeeCheck\<close>. The code tests \<open>typeof check.checkType === 'string'\<close> and
  \<open>typeof check.accumulatedSeconds === 'number'\<close> at run time, so both fields are
  optional here: \<open>None\<close> stands for a value of any other type (or a missing field).
\<close>

record EmployeeCheck =
  check_id :: string
  checkType :: "string option"
  accumulatedSeconds :: "int option"
  checkIn :: "EmployeeCheckMoment option"
  checkOut :: "EmployeeCheckMoment option"

text \<open>
  \<open>String.prototype.toLowerCase\<close> on the ASCII letters; every other character is left
  as it is.
\<close>

definition toLowerChar :: "char \<Rightarrow> char" where
  "toLowerChar c =
     (case map_of (zip ''ABCDEFGHIJKLMNOPQRSTUVWXYZ'' ''abcdefghijklmnopqrstuvwxyz'') c of
        Some l \<Rightarrow> l
      | None \<Rightarrow> c)"

definition toLowerCase :: "string \<Rightarrow> string" where
  "toLowerCase s = map toLowerChar s"

text \<open>JavaScript truthiness of a \<open>string | null | undefined\<close>: present and not empty.\<close>

definition truthy :: "string option \<Rightarrow> bool" where
  "truthy so = (case so of None \<Rightarrow> False | Some s \<Rightarrow> s \<noteq> [])"

text \<open>The optional chain \<open>moment?.date\<close>.\<close>

definition moment_date :: "EmployeeCheckMoment option \<Rightarrow> string option" where
  "moment_date m = (case m of None \<Rightarrow> None | Some x \<Rightarrow> date x)"

text \<open>
  \<open>parseDate\<close>. The runtime's date parser is a parameter \<open>dp\<close>: \<open>dp s\<close> is the time
  value in milliseconds of \<open>new Date(s)\<close>, and \<open>None\<close> when that time value is \<open>NaN\<close>.
\<close>

definition parseDate :: "(string \<Rightarrow> int option) \<Rightarrow> string option \<Rightarrow> int option" where
  "parseDate dp dateString = (if \<not> truthy dateString then None
     else case dateString of None \<Rightarrow> None | Some s \<Rightarrow> dp s)"

text \<open>The guard of the first branch of \<open>getWorkDurationSeconds\<close>.\<close>

definition serverSeconds :: "EmployeeCheck \<Rightarrow> int option" where
  "serverSeconds check =
     (if checkOut check = None then None
      else case accumulatedSeconds check of
             None \<Rightarrow> None
           | Some a \<Rightarrow> if 0 < a then Some a else None)"

definition getWorkDurationSeconds ::
    "(string \<Rightarrow> int option) \<Rightarrow> EmployeeCheck \<Rightarrow> WorkStatusType \<Rightarrow> int \<Rightarrow> int" where
  "getWorkDurationSeconds dp check status nowMillis =
     (case serverSeconds check of
        Some a \<Rightarrow> a
      | None \<Rightarrow>
         (case parseDate dp (moment_date (checkIn check)) of
            None \<Rightarrow> 0
          | Some start \<Rightarrow>
             (case (if truthy (moment_date (checkOut check))
                    then parseDate dp (moment_date (checkOut check)) else None) of
                Some end \<Rightarrow> max 0 ((end - start) div 1000)
              | None \<Rightarrow>
                 if checkOut check = None
                 then max 0 ((nowMillis - start) div 1000)
                 else 0)))"

text \<open>The lower-cased check type the loop of \<open>calculateWorkSeconds\<close> compares.\<close>

definition loweredType :: "EmployeeCheck \<Rightarrow> string" where
  "loweredType check =
     (case checkType check of Some s \<Rightarrow> toLowerCase s | None \<Rightarrow> ''unknown'')"

text \<open>The \<open>for\<close> loop of \<open>calculateWorkSeconds\<close>, with its running total.\<close>

fun workLoop ::
    "(string \<Rightarrow> int option) \<Rightarrow> WorkStatusType \<Rightarrow> int \<Rightarrow> int \<Rightarrow> EmployeeCheck list \<Rightarrow> int" where
  "workLoop dp status nowMillis tot [] = tot"
| "workLoop dp status nowMillis tot (check # rest) =
     (if loweredType check \<noteq> ''work''
      then workLoop dp status nowMillis tot rest
      else workLoop dp status nowMillis
             (tot + getWorkDurationSeconds dp check status nowMillis) rest)"

definition calculateWorkSeconds ::
    "(string \<Rightarrow> int option) \<Rightarrow> EmployeeCheck list \<Rightarrow> WorkStatusType \<Rightarrow> int \<Rightarrow> int" where
  "calculateWorkSeconds dp checks status nowMillis = workLoop dp status nowMillis 0 checks"

text \<open>The predicate handed to \<open>checks.find\<close> in \<open>calculateActivePauseSeconds\<close>.\<close>

definition isActivePause :: "EmployeeCheck \<Rightarrow> bool" where
  "isActivePause check =
     (case checkType check of
        None \<Rightarrow> False
      | Some s \<Rightarrow> if toLowerCase s \<noteq> ''pause'' then False else checkOut check = None)"

definition calculateActivePauseSeconds ::
    "(string \<Rightarrow> int option) \<Rightarrow> EmployeeCheck list \<Rightarrow> int \<Rightarrow> int" where
  "calculateActivePauseSeconds dp checks nowMillis =
     (case find isActivePause checks of
        None \<Rightarrow> 0
      | Some activePause \<Rightarrow>
         if \<not> truthy (moment_date (checkIn activePause)) then 0
         else case parseDate dp (moment_date (checkIn activePause)) of
                None \<Rightarrow> 0
              | Some pauseStart \<Rightarrow> max 0 ((nowMillis - pauseStart) div 1000))"

definition calculateDailyMetrics ::
    "(string \<Rightarrow> int option) \<Rightarrow> EmployeeCheck list \<Rightarrow> WorkStatusType \<Rightarrow> int \<Rightarrow> int \<times> int" where
  "calculateDailyMetrics dp checks status now =
     (calculateWorkSeconds dp checks status now,
      if status = paused then calculateActivePauseSeconds dp checks now else 0)"

text \<open>
  A date parser for the worked examples: it knows three instants of one morning and
  rejects every other string.
\<close>

definition sampleDates :: "string \<Rightarrow> int option" where
  "sampleDates s =
     (if s = ''2024-01-01T09:00:00Z'' then Some 1704099600000
      else if s = ''2024-01-01T09:06:40Z'' then Some 1704100000000
      else if s = ''2024-01-01T10:00:00Z'' then Some 1704103200000
      else None)"

definition moment :: "string \<Rightarrow> EmployeeCheckMoment option" where
  "moment s = Some \<lparr>date = Some s\<rparr>"

definition mkCheck ::
    "string \<Rightarrow> int option \<Rightarrow> EmployeeCheckMoment option \<Rightarrow> EmployeeCheckMoment option
      \<Rightarrow> EmployeeCheck" where
  "mkCheck ty acc cin cout =
     \<lparr>check_id = ''c'', checkType = Some ty, accumulatedSeconds = acc,
      checkIn = cin, checkOut = cout\<rparr>"

section \<open>Case-insensitive comparison, as the specification words it\<close>

text \<open>
  The specification speaks of a check type "equal to work ignoring case". This second
  definition follows those words and does not use \<open>toLowerCase\<close>: two strings are equal
  ignoring case when they have the same length and agree, position by position, after
  upper-casing.
\<close>

definition toUpperChar :: "char \<Rightarrow> char" where
  "toUpperChar c =
     (case map_of (zip ''abcdefghijklmnopqrstuvwxyz'' ''ABCDEFGHIJKLMNOPQRSTUVWXYZ'') c of
        Some u \<Rightarrow> u
      | None \<Rightarrow> c)"

definition equalIgnoringCase :: "string \<Rightarrow> string \<Rightarrow> bool" where
  "equalIgnoringCase s t = list_all2 (\<lambda>a b. toUpperChar a = toUpperChar b) s t"

definition hasTypeIgnoringCase :: "string \<Rightarrow> EmployeeCheck \<Rightarrow> bool" where
  "hasTypeIgnoringCase ty check =
     (case checkType check of None \<Rightarrow> False | Some s \<Rightarrow> equalIgnoringCase s ty)"

text \<open>The seconds an open pause has run, as \<open>calculateActivePauseSeconds\<close> computes them.\<close>

definition pauseElapsed :: "(string \<Rightarrow> int option) \<Rightarrow> EmployeeCheck \<Rightarrow> int \<Rightarrow> int" where
  "pauseElapsed dp check nowMillis =
     (case parseDate dp (moment_date (checkIn check)) of
        None \<Rightarrow> 0
      | Some pauseStart \<Rightarrow> max 0 ((nowMillis - pauseStart) div 1000))"

section \<open>The Sesame API service\<close>

text \<open>
  Class \<open>SesameAPI\<close> holds the token, the cached work status, the listeners and the
  polling timer. Its methods are asynchronous and each wraps its body in
  \<open>try\<close>/\<open>catch\<close>. A method is modelled as one atomic step on the state: the calls of
  one method are not interleaved with those of another. What the network answers to a
  request is an argument of the step. Logging is not modelled, and the settings store is
  taken to work (reading and writing the global settings never fails).
\<close>

record LastCheck =
  checkId :: string
  checkInDatetime :: string
  checkOutDatetime :: "string option"

record WorkStatus =
  workStatus :: WorkStatusType
  lastCheck :: "LastCheck option"
  employeeId :: string

text \<open>\<open>GlobalPluginSettings\<close>; the field \<open>token\<close> is \<open>storedToken\<close> here.\<close>

record GlobalPluginSettings =
  email :: "string option"
  password :: "string option"
  storedToken :: "string option"
  isAuthenticated :: "bool option"

text \<open>
  A status change listener is code of the button surfaces. The model keeps its identity
  and whether a call of it throws; the listeners of this repository start an
  asynchronous update and do not touch the service's state while they are called.
\<close>

record Listener =
  lid :: nat
  throws :: bool

datatype error =
    NotAuthenticated
  | NetworkFailure
  | HttpStatus
  | InvalidJson
  | TypeError
  | ListenerError nat

text \<open>How a call ends: it returns a value or throws.\<close>

datatype 'a completion = Return 'a | Throw error

text \<open>
  A response: \<open>response.ok\<close>, and what \<open>response.json()\<close> gives (\<open>None\<close> when it
  rejects because the body is not JSON). \<open>fetch\<close> itself rejects on a network error.
\<close>

datatype 'b Response = Response (ok: bool) (json: "'b option")

datatype 'b Fetch = Rejects | Resolves "'b Response"

text \<open>
  The body of \<open>/security/me\<close> as far as \<open>getWorkStatus\<close> reads it: the array
  \<open>data.data\<close>, or \<open>None\<close> when the body has no such array (reading \<open>data.data[0]\<close>
  then throws a \<open>TypeError\<close>, as reading \<open>data.data[0].workStatus\<close> does on an empty array).
\<close>

record MeEntry =
  me_workStatus :: WorkStatusType
  me_lastCheck :: "LastCheck option"
  me_id :: string

type_synonym MeBody = "MeEntry list option"

text \<open>
  The body of \<open>/security/login\<close>: \<open>null\<close> (reading \<open>response_data.data\<close> throws), or a
  value whose property \<open>data\<close> is the token or is missing.
\<close>

datatype LoginBody = LoginNull | LoginData "string option"

text \<open>
  The state: the six private fields of the class, then the environment it acts on: the
  durable global settings, the interval timers of the runtime that are still active (by
  handle; \<open>nextTimer\<close> is the next handle \<open>setInterval\<close> hands out), the requests sent
  so far (by endpoint), the listener calls made so far (by listener identity), and the
  number of calls of \<open>checkForStatusChanges\<close> that \<open>startPolling\<close> has started without
  awaiting them and that have not run yet.
\<close>

record SesameAPI =
  token :: "string option"
  workStatusCache :: "WorkStatus option"
  lastWorkStatusFetch :: int
  statusChangeListeners :: "Listener list"
  pollingInterval :: "nat option"
  lastKnownStatus :: "WorkStatusType option"
  globalSettings :: GlobalPluginSettings
  timers :: "nat list"
  nextTimer :: nat
  requests :: "string list"
  invoked :: "nat list"
  pendingChecks :: nat

definition CACHE_DURATION_MS :: int where
  "CACHE_DURATION_MS = 30000"

definition initialState :: "GlobalPluginSettings \<Rightarrow> SesameAPI" where
  "initialState gs =
     \<lparr>token = None, workStatusCache = None, lastWorkStatusFetch = 0,
      statusChangeListeners = [], pollingInterval = None, lastKnownStatus = None,
      globalSettings = gs, timers = [], nextTimer = 0, requests = [], invoked = [],
      pendingChecks = 0\<rparr>"

definition getToken :: "SesameAPI \<Rightarrow> string option \<times> SesameAPI" where
  "getToken s =
     (if truthy (token s) then (token s, s)
      else if truthy (storedToken (globalSettings s))
      then (storedToken (globalSettings s), s\<lparr>token := storedToken (globalSettings s)\<rparr>)
      else (None, s))"

definition fetch :: "string \<Rightarrow> 'b Fetch \<Rightarrow> SesameAPI \<Rightarrow> 'b Response completion \<times> SesameAPI" where
  "fetch url net s =
     (case net of Rejects \<Rightarrow> Throw NetworkFailure | Resolves r \<Rightarrow> Return r,
      s\<lparr>requests := requests s @ [url]\<rparr>)"

definition makeAuthenticatedRequest ::
    "string \<Rightarrow> 'b Fetch \<Rightarrow> SesameAPI \<Rightarrow> 'b Response completion \<times> SesameAPI" where
  "makeAuthenticatedRequest endpoint net s =
     (case getToken s of
        (tok, s1) \<Rightarrow>
          if \<not> truthy tok then (Throw NotAuthenticated, s1)
          else fetch endpoint net s1)"

subsection \<open>Listeners and cache invalidation\<close>

definition invokeListener :: "Listener \<Rightarrow> SesameAPI \<Rightarrow> unit completion \<times> SesameAPI" where
  "invokeListener l s =
     (if throws l then Throw (ListenerError (lid l)) else Return (),
      s\<lparr>invoked := invoked s @ [lid l]\<rparr>)"

text \<open>The callback of \<open>forEach\<close> in \<open>clearWorkStatusCache\<close>: \<open>try { listener() } catch\<close>.\<close>

definition listenerCallback :: "Listener \<Rightarrow> SesameAPI \<Rightarrow> unit completion \<times> SesameAPI" where
  "listenerCallback l s =
     (case invokeListener l s of
        (Throw e, s1) \<Rightarrow> (Return (), s1)
      | (Return u, s1) \<Rightarrow> (Return u, s1))"

text \<open>\<open>Array.prototype.forEach\<close>: a callback that throws ends the iteration.\<close>

fun forEach :: "('a \<Rightarrow> 's \<Rightarrow> unit completion \<times> 's) \<Rightarrow> 'a list \<Rightarrow> 's \<Rightarrow> unit completion \<times> 's" where
  "forEach f [] s = (Return (), s)"
| "forEach f (x # xs) s =
     (case f x s of
        (Throw e, s1) \<Rightarrow> (Throw e, s1)
      | (Return u, s1) \<Rightarrow> forEach f xs s1)"

definition clearWorkStatusCache :: "SesameAPI \<Rightarrow> unit completion \<times> SesameAPI" where
  "clearWorkStatusCache s =
     forEach listenerCallback (statusChangeListeners s)
       (s\<lparr>workStatusCache := None, lastWorkStatusFetch := 0\<rparr>)"

definition addStatusChangeListener :: "Listener \<Rightarrow> SesameAPI \<Rightarrow> SesameAPI" where
  "addStatusChangeListener l s = s\<lparr>statusChangeListeners := statusChangeListeners s @ [l]\<rparr>"

definition removeStatusChangeListener :: "Listener \<Rightarrow> SesameAPI \<Rightarrow> SesameAPI" where
  "removeStatusChangeListener l s =
     s\<lparr>statusChangeListeners := remove1 l (statusChangeListeners s)\<rparr>"

subsection \<open>The cached work status\<close>

text \<open>The body of the \<open>try\<close> block of \<open>getWorkStatus\<close>, up to the new status value.\<close>

definition fetchWorkStatus :: "MeBody Fetch \<Rightarrow> SesameAPI \<Rightarrow> WorkStatus completion \<times> SesameAPI" where
  "fetchWorkStatus net s =
     (case makeAuthenticatedRequest ''/security/me'' net s of
        (Throw e, s1) \<Rightarrow> (Throw e, s1)
      | (Return response, s1) \<Rightarrow>
          if \<not> ok response then (Throw HttpStatus, s1)
          else (case json response of
                  None \<Rightarrow> (Throw InvalidJson, s1)
                | Some None \<Rightarrow> (Throw TypeError, s1)
                | Some (Some []) \<Rightarrow> (Throw TypeError, s1)
                | Some (Some (e # es)) \<Rightarrow>
                    (Return \<lparr>workStatus = me_workStatus e, lastCheck = me_lastCheck e,
                             employeeId = me_id e\<rparr>, s1)))"

definition getWorkStatus :: "int \<Rightarrow> MeBody Fetch \<Rightarrow> SesameAPI \<Rightarrow> WorkStatus option \<times> SesameAPI" where
  "getWorkStatus now net s =
     (if workStatusCache s \<noteq> None \<and> now - lastWorkStatusFetch s < CACHE_DURATION_MS
      then (workStatusCache s, s)
      else (case fetchWorkStatus net s of
              (Return status, s1) \<Rightarrow>
                (Some status, s1\<lparr>workStatusCache := Some status, lastWorkStatusFetch := now\<rparr>)
            | (Throw e, s1) \<Rightarrow>
                (None, s1\<lparr>workStatusCache := None, lastWorkStatusFetch := 0\<rparr>)))"

subsection \<open>Polling\<close>

definition checkForStatusChanges :: "int \<Rightarrow> MeBody Fetch \<Rightarrow> SesameAPI \<Rightarrow> SesameAPI" where
  "checkForStatusChanges now net s =
     (case getWorkStatus now net s of
        (None, s1) \<Rightarrow> s1
      | (Some status, s1) \<Rightarrow>
          (case (if lastKnownStatus s1 \<noteq> None \<and> lastKnownStatus s1 \<noteq> Some (workStatus status)
                 then clearWorkStatusCache s1 else (Return (), s1)) of
             (Throw e, s2) \<Rightarrow> s2
           | (Return u, s2) \<Rightarrow> s2\<lparr>lastKnownStatus := Some (workStatus status)\<rparr>))"

definition stopPolling :: "SesameAPI \<Rightarrow> SesameAPI" where
  "stopPolling s =
     (case pollingInterval s of
        None \<Rightarrow> s
      | Some h \<Rightarrow> s\<lparr>timers := removeAll h (timers s), pollingInterval := None\<rparr>)"

text \<open>
  \<open>startPolling\<close> calls \<open>checkForStatusChanges()\<close> without awaiting it: the call is
  counted as pending and runs as a step of its own.
\<close>

definition startPolling :: "SesameAPI \<Rightarrow> SesameAPI" where
  "startPolling s =
     (let s1 = stopPolling s;
          s2 = s1\<lparr>pendingChecks := Suc (pendingChecks s1)\<rparr>
      in s2\<lparr>pollingInterval := Some (nextTimer s2),
             timers := timers s2 @ [nextTimer s2],
             nextTimer := Suc (nextTimer s2)\<rparr>)"

definition initializePolling :: "SesameAPI \<Rightarrow> SesameAPI" where
  "initializePolling s =
     (case getToken s of (tok, s1) \<Rightarrow> if tok \<noteq> None then startPolling s1 else s1)"

subsection \<open>Authentication\<close>

definition login :: "string \<Rightarrow> string \<Rightarrow> LoginBody Fetch \<Rightarrow> SesameAPI \<Rightarrow> bool \<times> SesameAPI" where
  "login em pw net s =
     (case fetch ''/security/login'' net s of
        (Throw e, s1) \<Rightarrow> (False, s1)
      | (Return response, s1) \<Rightarrow>
          if \<not> ok response then (False, s1)
          else (case json response of
                  None \<Rightarrow> (False, s1)
                | Some LoginNull \<Rightarrow> (False, s1)
                | Some (LoginData tok) \<Rightarrow>
                    (True,
                     startPolling
                       (s1\<lparr>token := tok,
                           globalSettings :=
                             \<lparr>email = Some em, password = Some pw, storedToken = tok,
                              isAuthenticated = Some True\<rparr>\<rparr>))))"

definition autoLogin :: "LoginBody Fetch \<Rightarrow> SesameAPI \<Rightarrow> bool \<times> SesameAPI" where
  "autoLogin net s =
     (case (email (globalSettings s), password (globalSettings s)) of
        (Some em, Some pw) \<Rightarrow> if em \<noteq> [] \<and> pw \<noteq> [] then login em pw net s else (False, s)
      | _ \<Rightarrow> (False, s))"

definition performLogin ::
    "string option \<Rightarrow> string option \<Rightarrow> LoginBody Fetch \<Rightarrow> SesameAPI \<Rightarrow> bool \<times> SesameAPI" where
  "performLogin em pw net s =
     (case (em, pw) of
        (Some e, Some p) \<Rightarrow>
          if e \<noteq> [] \<and> p \<noteq> [] then login e p net s
          else (case getToken s of
                  (tok, s1) \<Rightarrow> if truthy tok then (True, s1) else autoLogin net s1)
      | _ \<Rightarrow>
          (case getToken s of
             (tok, s1) \<Rightarrow> if truthy tok then (True, s1) else autoLogin net s1))"

definition logout :: "SesameAPI \<Rightarrow> SesameAPI" where
  "logout s =
     stopPolling
       (s\<lparr>token := None,
          globalSettings :=
            \<lparr>email = None, password = None, storedToken = None,
             isAuthenticated = Some False\<rparr>\<rparr>)"

subsection \<open>Check-in, check-out and pause\<close>

text \<open>
  \<open>checkIn\<close>, \<open>checkOut\<close> and \<open>pause\<close> have the same body up to the endpoint and the
  request body they post: \<open>postAndClear\<close> is that body. The three methods carry the
  suffix \<open>Op\<close> here, since \<open>checkIn\<close> and \<open>checkOut\<close> are fields of a check.
\<close>

definition postAndClear :: "string \<Rightarrow> 'r Fetch \<Rightarrow> SesameAPI \<Rightarrow> 'r option \<times> SesameAPI" where
  "postAndClear endpoint net s =
     (case makeAuthenticatedRequest endpoint net s of
        (Throw e, s1) \<Rightarrow> (None, s1)
      | (Return response, s1) \<Rightarrow>
          if \<not> ok response then (None, s1)
          else (case json response of
                  None \<Rightarrow> (None, s1)
                | Some data \<Rightarrow>
                    (case clearWorkStatusCache s1 of
                       (Throw e, s2) \<Rightarrow> (None, s2)
                     | (Return u, s2) \<Rightarrow> (Some data, s2))))"

definition checkInOp :: "string \<Rightarrow> 'r Fetch \<Rightarrow> SesameAPI \<Rightarrow> 'r option \<times> SesameAPI" where
  "checkInOp employee net s = postAndClear (''/employees/'' @ employee @ ''/check-in'') net s"

definition checkOutOp :: "string \<Rightarrow> 'r Fetch \<Rightarrow> SesameAPI \<Rightarrow> 'r option \<times> SesameAPI" where
  "checkOutOp employee net s = postAndClear (''/employees/'' @ employee @ ''/check-out'') net s"

definition pauseOp :: "string \<Rightarrow> string \<Rightarrow> 'r Fetch \<Rightarrow> SesameAPI \<Rightarrow> 'r option \<times> SesameAPI" where
  "pauseOp employee workBreakId net s = postAndClear (''/employees/'' @ employee @ ''/pause'') net s"

subsection \<open>The service as a state machine\<close>

text \<open>
  What can happen to the service: a call of one of its public methods, the callback of
  an interval timer, or the run of a pending status check. The callback of timer \<open>h\<close>
  runs only while \<open>h\<close> is active.
\<close>

datatype 'r Event =
    Login string string "LoginBody Fetch"
  | PerformLogin "string option" "string option" "LoginBody Fetch"
  | Logout
  | InitializePolling
  | GetWorkStatus int "MeBody Fetch"
  | CheckIn string "'r Fetch"
  | CheckOut string "'r Fetch"
  | Pause string string "'r Fetch"
  | AddListener Listener
  | RemoveListener Listener
  | TimerFires nat int "MeBody Fetch"
  | PendingCheck int "MeBody Fetch"

fun step :: "'r Event \<Rightarrow> SesameAPI \<Rightarrow> SesameAPI" where
  "step (Login em pw net) s = snd (login em pw net s)"
| "step (PerformLogin em pw net) s = snd (performLogin em pw net s)"
| "step Logout s = logout s"
| "step InitializePolling s = initializePolling s"
| "step (GetWorkStatus now net) s = snd (getWorkStatus now net s)"
| "step (CheckIn employee net) s = snd (checkInOp employee net s)"
| "step (CheckOut employee net) s = snd (checkOutOp employee net s)"
| "step (Pause employee wb net) s = snd (pauseOp employee wb net s)"
| "step (AddListener l) s = addStatusChangeListener l s"
| "step (RemoveListener l) s = removeStatusChangeListener l s"
| "step (TimerFires h now net) s =
     (if h \<in> set (timers s) then checkForStatusChanges now net s else s)"
| "step (PendingCheck now net) s =
     (if 0 < pendingChecks s
      then checkForStatusChanges now net (s\<lparr>pendingChecks := pendingChecks s - 1\<rparr>)
      else s)"

definition run :: "'r Event list \<Rightarrow> SesameAPI \<Rightarrow> SesameAPI" where
  "run events s = fold step events s"

subsection \<open>The poll loop over a sequence of ticks\<close>

text \<open>
  A tick is the time of a call of \<open>checkForStatusChanges\<close> and what the network would
  answer to it. \<open>pollLoop\<close> runs the ticks in order; \<open>observations\<close> lists what
  \<open>getWorkStatus\<close> gave each of them (\<open>None\<close> for \<open>null\<close>).
\<close>

definition observed :: "int \<Rightarrow> MeBody Fetch \<Rightarrow> SesameAPI \<Rightarrow> WorkStatusType option" where
  "observed now net s = map_option workStatus (fst (getWorkStatus now net s))"

fun pollLoop :: "(int \<times> MeBody Fetch) list \<Rightarrow> SesameAPI \<Rightarrow> SesameAPI" where
  "pollLoop [] s = s"
| "pollLoop ((now, net) # ticks) s = pollLoop ticks (checkForStatusChanges now net s)"

fun observations :: "(int \<times> MeBody Fetch) list \<Rightarrow> SesameAPI \<Rightarrow> WorkStatusType option list" where
  "observations [] s = []"
| "observations ((now, net) # ticks) s =
     observed now net s # observations ticks (checkForStatusChanges now net s)"

text \<open>
  The flips of a sequence of observations, in the specification's sense: an observed
  status that differs from the status known before it. The first status ever observed
  is no flip, and neither is an observation that failed.
\<close>

fun flips :: "WorkStatusType option \<Rightarrow> WorkStatusType option list \<Rightarrow> nat" where
  "flips known [] = 0"
| "flips known (None # obs) = flips known obs"
| "flips None (Some x # obs) = flips (Some x) obs"
| "flips (Some k) (Some x # obs) = (if k = x then 0 else 1) + flips (Some x) obs"

text \<open>The status known after an observation: a failed observation leaves it as it was.\<close>

definition knownAfter :: "WorkStatusType option \<Rightarrow> WorkStatusType option \<Rightarrow> WorkStatusType option" where
  "knownAfter known obs = (case obs of None \<Rightarrow> known | Some x \<Rightarrow> Some x)"

subsection \<open>Failed calls, in the specification's sense\<close>

text \<open>A remote call fails on a network error or a response that is not 2xx.\<close>

definition failedCall :: "'b Fetch \<Rightarrow> bool" where
  "failedCall net = (case net of Rejects \<Rightarrow> True | Resolves r \<Rightarrow> \<not> ok r)"


text \<open>The service holds a usable token, in memory or in the settings.\<close>

definition hasToken :: "SesameAPI \<Rightarrow> bool" where
  "hasToken s = truthy (fst (getToken s))"

text \<open>
  The invariant of the polling timer: the active timers are exactly the one the field
  \<open>pollingInterval\<close> holds, and its handle has been handed out already.
\<close>

definition pollInv :: "SesameAPI \<Rightarrow> bool" where
  "pollInv s =
     (case pollingInterval s of
        None \<Rightarrow> timers s = []
      | Some h \<Rightarrow> timers s = [h] \<and> h < nextTimer s)"

subsection \<open>Sample values for the worked examples\<close>

definition sampleSettings :: GlobalPluginSettings where
  "sampleSettings =
     \<lparr>email = Some ''ann@example.org'', password = Some ''secret'',
      storedToken = Some ''tok'', isAuthenticated = Some True\<rparr>"

definition noSettings :: GlobalPluginSettings where
  "noSettings =
     \<lparr>email = None, password = None, storedToken = None, isAuthenticated = None\<rparr>"

definition statusOf :: "WorkStatusType \<Rightarrow> WorkStatus" where
  "statusOf st = \<lparr>workStatus = st, lastCheck = None, employeeId = ''emp''\<rparr>"

definition meReply :: "WorkStatusType \<Rightarrow> MeBody Fetch" where
  "meReply st =
     Resolves (Response True
       (Some (Some [\<lparr>me_workStatus = st, me_lastCheck = None, me_id = ''emp''\<rparr>])))"

definition twoListeners :: "Listener list" where
  "twoListeners = [\<lparr>lid = 1, throws = True\<rparr>, \<lparr>lid = 2, throws = False\<rparr>]"

text \<open>A logged-in service with two listeners and the status \<open>online\<close> cached at time 80000.\<close>

definition cachedState :: SesameAPI where
  "cachedState =
     (initialState sampleSettings)
       \<lparr>token := Some ''tok'', workStatusCache := Some (statusOf online),
        lastWorkStatusFetch := 80000, statusChangeListeners := twoListeners\<rparr>"


text \<open>Six ticks of the poll loop, 30 seconds apart: the status flips twice.\<close>

definition sampleTicks :: "(int \<times> MeBody Fetch) list" where
  "sampleTicks =
     [(0, meReply online), (30000, meReply online), (60000, meReply paused),
      (90000, Rejects), (120000, meReply paused), (150000, meReply online)]"

definition listeningState :: SesameAPI where
  "listeningState = (initialState sampleSettings)\<lparr>statusChangeListeners := twoListeners\<rparr>"

text \<open>A login that succeeds, and a run that starts the poll loop three times.\<close>

definition loginReply :: "LoginBody Fetch" where
  "loginReply = Resolves (Response True (Some (LoginData (Some ''tok''))))"

definition sampleEvents :: "string Event list" where
  "sampleEvents =
     [Login ''ann@example.org'' ''secret'' loginReply, InitializePolling,
      Login ''ann@example.org'' ''secret'' loginReply]"

section \<open>Work seconds\<close>

lemma workLoop_sum:
  "workLoop dp status now tot checks =
     tot + sum_list (map (\<lambda>c. getWorkDurationSeconds dp c status now)
                        (filter (\<lambda>c. loweredType c = ''work'') checks))"
  by (induction checks arbitrary: tot) simp_all

text \<open>
  Claim C6. Per refresh, the worked seconds are the sum, over the checks whose
  lower-cased type is \<open>work\<close>, of the duration of each check, and that duration is: the
  server's \<open>accumulatedSeconds\<close>, verbatim, for a closed check that carries a positive
  one; otherwise, for a closed check whose two dates parse, the difference of the dates
  in whole seconds, floored at zero; and for an open check whose start date parses, the
  time from the start to now in whole seconds, floored at zero.
\<close>

theorem work_seconds_computation:
  "calculateWorkSeconds dp checks status now =
     (\<Sum>c\<leftarrow>filter (\<lambda>c. loweredType c = ''work'') checks. getWorkDurationSeconds dp c status now)
   \<and> (\<forall>c a. checkOut c \<noteq> None \<and> accumulatedSeconds c = Some a \<and> 0 < a
        \<longrightarrow> getWorkDurationSeconds dp c status now = a)
   \<and> (\<forall>c s e. checkOut c \<noteq> None \<and> (\<forall>a. accumulatedSeconds c = Some a \<longrightarrow> a \<le> 0)
          \<and> parseDate dp (moment_date (checkIn c)) = Some s
          \<and> parseDate dp (moment_date (checkOut c)) = Some e
        \<longrightarrow> getWorkDurationSeconds dp c status now = max 0 ((e - s) div 1000))
   \<and> (\<forall>c s. checkOut c = None \<and> parseDate dp (moment_date (checkIn c)) = Some s
        \<longrightarrow> getWorkDurationSeconds dp c status now = max 0 ((now - s) div 1000))"
proof -
  have total: "calculateWorkSeconds dp checks status now =
     (\<Sum>c\<leftarrow>filter (\<lambda>c. loweredType c = ''work'') checks. getWorkDurationSeconds dp c status now)"
    by (simp add: calculateWorkSeconds_def workLoop_sum)
  have server: "getWorkDurationSeconds dp c status now = a"
    if "checkOut c \<noteq> None" "accumulatedSeconds c = Some a" "0 < a" for c a
    using that by (auto simp: getWorkDurationSeconds_def serverSeconds_def)
  have closed: "getWorkDurationSeconds dp c status now = max 0 ((e - s) div 1000)"
    if "checkOut c \<noteq> None" "\<forall>a. accumulatedSeconds c = Some a \<longrightarrow> a \<le> 0"
       "parseDate dp (moment_date (checkIn c)) = Some s"
       "parseDate dp (moment_date (checkOut c)) = Some e" for c s e
  proof -
    have "serverSeconds c = None"
      using that(2) by (auto simp: serverSeconds_def split: option.splits)
    moreover have "truthy (moment_date (checkOut c))"
      using that(4) by (auto simp: parseDate_def split: if_splits)
    ultimately show ?thesis
      using that(3,4) by (simp add: getWorkDurationSeconds_def)
  qed
  have opened: "getWorkDurationSeconds dp c status now = max 0 ((now - s) div 1000)"
    if "checkOut c = None" "parseDate dp (moment_date (checkIn c)) = Some s" for c s
    using that
    by (simp add: getWorkDurationSeconds_def serverSeconds_def moment_date_def truthy_def)
  from total server closed opened show ?thesis by blast
qed

text \<open>
  The example of the specification: a closed work check that carries 500 accumulated
  seconds and dates 400 seconds apart counts 500. Without the server's figure it counts
  400; an open check that started 3200 seconds ago counts 3200; a pause is not summed.
\<close>

theorem work_seconds_computation_witness:
  "getWorkDurationSeconds sampleDates
      (mkCheck ''Work'' (Some 500) (moment ''2024-01-01T09:00:00Z'') (moment ''2024-01-01T09:06:40Z''))
      online 1704103200000 = 500
   \<and> getWorkDurationSeconds sampleDates
      (mkCheck ''Work'' None (moment ''2024-01-01T09:00:00Z'') (moment ''2024-01-01T09:06:40Z''))
      online 1704103200000 = 400
   \<and> getWorkDurationSeconds sampleDates
      (mkCheck ''Work'' None (moment ''2024-01-01T09:06:40Z'') None)
      online 1704103200000 = 3200
   \<and> calculateWorkSeconds sampleDates
      [mkCheck ''Work'' (Some 500) (moment ''2024-01-01T09:00:00Z'') (moment ''2024-01-01T09:06:40Z''),
       mkCheck ''Pause'' None (moment ''2024-01-01T09:00:00Z'') (moment ''2024-01-01T09:06:40Z''),
       mkCheck ''Work'' None (moment ''2024-01-01T09:06:40Z'') None]
      online 1704103200000 = 3700"
  using work_seconds_computation [of sampleDates
      "[mkCheck ''Work'' (Some 500) (moment ''2024-01-01T09:00:00Z'') (moment ''2024-01-01T09:06:40Z''),
       mkCheck ''Pause'' None (moment ''2024-01-01T09:00:00Z'') (moment ''2024-01-01T09:06:40Z''),
       mkCheck ''Work'' None (moment ''2024-01-01T09:06:40Z'') None]" online 1704103200000]
  by (simp add: mkCheck_def moment_def sampleDates_def parseDate_def truthy_def moment_date_def
        loweredType_def toLowerCase_def toLowerChar_def getWorkDurationSeconds_def serverSeconds_def)

section \<open>Check types are compared ignoring case\<close>

lemma lower_w: "toLowerChar c = CHR ''w'' \<longleftrightarrow> toUpperChar c = CHR ''W''"
  by (simp add: toLowerChar_def toUpperChar_def)
lemma lower_o: "toLowerChar c = CHR ''o'' \<longleftrightarrow> toUpperChar c = CHR ''O''"
  by (simp add: toLowerChar_def toUpperChar_def)
lemma lower_r: "toLowerChar c = CHR ''r'' \<longleftrightarrow> toUpperChar c = CHR ''R''"
  by (simp add: toLowerChar_def toUpperChar_def)
lemma lower_k: "toLowerChar c = CHR ''k'' \<longleftrightarrow> toUpperChar c = CHR ''K''"
  by (simp add: toLowerChar_def toUpperChar_def)
lemma lower_p: "toLowerChar c = CHR ''p'' \<longleftrightarrow> toUpperChar c = CHR ''P''"
  by (simp add: toLowerChar_def toUpperChar_def)
lemma lower_a: "toLowerChar c = CHR ''a'' \<longleftrightarrow> toUpperChar c = CHR ''A''"
  by (simp add: toLowerChar_def toUpperChar_def)
lemma lower_u: "toLowerChar c = CHR ''u'' \<longleftrightarrow> toUpperChar c = CHR ''U''"
  by (simp add: toLowerChar_def toUpperChar_def)
lemma lower_s: "toLowerChar c = CHR ''s'' \<longleftrightarrow> toUpperChar c = CHR ''S''"
  by (simp add: toLowerChar_def toUpperChar_def)
lemma lower_e: "toLowerChar c = CHR ''e'' \<longleftrightarrow> toUpperChar c = CHR ''E''"
  by (simp add: toLowerChar_def toUpperChar_def)

lemma upper_lits: "toUpperChar CHR ''w'' = CHR ''W''" "toUpperChar CHR ''o'' = CHR ''O''"
  "toUpperChar CHR ''r'' = CHR ''R''" "toUpperChar CHR ''k'' = CHR ''K''"
  "toUpperChar CHR ''p'' = CHR ''P''" "toUpperChar CHR ''a'' = CHR ''A''"
  "toUpperChar CHR ''u'' = CHR ''U''" "toUpperChar CHR ''s'' = CHR ''S''"
  "toUpperChar CHR ''e'' = CHR ''E''"
  by (simp_all add: toUpperChar_def)

lemma lower_work: "toLowerCase s = ''work'' \<longleftrightarrow> equalIgnoringCase s ''work''"
  by (auto simp: toLowerCase_def equalIgnoringCase_def list_all2_Cons2 map_eq_Cons_conv
        lower_w lower_o lower_r lower_k upper_lits)

lemma lower_pause: "toLowerCase s = ''pause'' \<longleftrightarrow> equalIgnoringCase s ''pause''"
  by (auto simp: toLowerCase_def equalIgnoringCase_def list_all2_Cons2 map_eq_Cons_conv
        lower_p lower_a lower_u lower_s lower_e upper_lits)

lemma loweredType_work: "loweredType c = ''work'' \<longleftrightarrow> hasTypeIgnoringCase ''work'' c"
  by (simp add: loweredType_def hasTypeIgnoringCase_def lower_work split: option.split)

lemma isActivePause_spec:
  "isActivePause c \<longleftrightarrow> hasTypeIgnoringCase ''pause'' c \<and> checkOut c = None"
  by (auto simp: isActivePause_def hasTypeIgnoringCase_def lower_pause split: option.split)

section \<open>Durations are never negative\<close>

lemma activePause_elapsed:
  "calculateActivePauseSeconds dp checks now =
     (case find isActivePause checks of None \<Rightarrow> 0 | Some p \<Rightarrow> pauseElapsed dp p now)"
  by (auto simp: calculateActivePauseSeconds_def pauseElapsed_def parseDate_def
        split: option.splits)



lemma work_total:
  "calculateWorkSeconds dp checks status now =
     (\<Sum>c\<leftarrow>filter (\<lambda>c. loweredType c = ''work'') checks. getWorkDurationSeconds dp c status now)"
  by (simp add: calculateWorkSeconds_def workLoop_sum)






section \<open>Which checks are counted\<close>

lemma work_drop_untyped:
  "checkType c = None \<Longrightarrow>
     calculateWorkSeconds dp (xs @ c # ys) status now = calculateWorkSeconds dp (xs @ ys) status now"
  by (simp add: work_total loweredType_def)

lemma find_drop: "\<not> P c \<Longrightarrow> find P (xs @ c # ys) = find P (xs @ ys)"
  by (induction xs) auto

lemma pause_drop_untyped:
  "checkType c = None \<Longrightarrow>
     calculateActivePauseSeconds dp (xs @ c # ys) now = calculateActivePauseSeconds dp (xs @ ys) now"
  by (simp add: activePause_elapsed find_drop isActivePause_def)

text \<open>
  Claim C10, as amended. The worked seconds sum exactly the checks whose type is a string
  equal to \<open>work\<close> ignoring case. The seconds of the active pause are those of the first
  check of the list whose type is a string equal to \<open>pause\<close> ignoring case and whose
  \<open>checkOut\<close> is null (zero when there is none). A check whose type is not a string is
  skipped: taking it out of the list changes neither figure.
\<close>

theorem type_matching_ignores_case:
  "calculateWorkSeconds dp checks status now =
     (\<Sum>c\<leftarrow>filter (hasTypeIgnoringCase ''work'') checks. getWorkDurationSeconds dp c status now)
   \<and> calculateActivePauseSeconds dp checks now =
     (case find (\<lambda>c. hasTypeIgnoringCase ''pause'' c \<and> checkOut c = None) checks of
        None \<Rightarrow> 0
      | Some p \<Rightarrow> pauseElapsed dp p now)
   \<and> (\<forall>c xs ys. checks = xs @ c # ys \<and> checkType c = None \<longrightarrow>
         calculateWorkSeconds dp checks status now = calculateWorkSeconds dp (xs @ ys) status now
         \<and> calculateActivePauseSeconds dp checks now = calculateActivePauseSeconds dp (xs @ ys) now)"
proof -
  have w: "(\<lambda>c. loweredType c = ''work'') = hasTypeIgnoringCase ''work''"
    by (rule ext) (rule loweredType_work)
  have p: "isActivePause = (\<lambda>c. hasTypeIgnoringCase ''pause'' c \<and> checkOut c = None)"
    by (rule ext) (rule isActivePause_spec)
  show ?thesis
    using work_total [of dp checks status now] activePause_elapsed [of dp checks now]
      work_drop_untyped pause_drop_untyped
    unfolding w p by blast
qed

text \<open>
  A check of type \<open>WoRk\<close> is summed, a check with no type string is skipped, and an
  open check of type \<open>PAUSE\<close> is the active pause.
\<close>

theorem type_matching_ignores_case_witness:
  "calculateWorkSeconds sampleDates
      [mkCheck ''WoRk'' None (moment ''2024-01-01T09:00:00Z'') (moment ''2024-01-01T09:06:40Z''),
       (mkCheck ''work'' None (moment ''2024-01-01T09:00:00Z'') None)\<lparr>checkType := None\<rparr>,
       mkCheck ''PAUSE'' None (moment ''2024-01-01T09:06:40Z'') None]
      paused 1704103200000 = 400
   \<and> calculateActivePauseSeconds sampleDates
      [mkCheck ''WoRk'' None (moment ''2024-01-01T09:00:00Z'') (moment ''2024-01-01T09:06:40Z''),
       (mkCheck ''work'' None (moment ''2024-01-01T09:00:00Z'') None)\<lparr>checkType := None\<rparr>,
       mkCheck ''PAUSE'' None (moment ''2024-01-01T09:06:40Z'') None]
      1704103200000 = 3200"
  using type_matching_ignores_case [of sampleDates
      "[mkCheck ''WoRk'' None (moment ''2024-01-01T09:00:00Z'') (moment ''2024-01-01T09:06:40Z''),
       (mkCheck ''work'' None (moment ''2024-01-01T09:00:00Z'') None)\<lparr>checkType := None\<rparr>,
       mkCheck ''PAUSE'' None (moment ''2024-01-01T09:06:40Z'') None]" paused 1704103200000]
  by (simp add: mkCheck_def moment_def sampleDates_def parseDate_def truthy_def moment_date_def
        hasTypeIgnoringCase_def equalIgnoringCase_def toUpperChar_def pauseElapsed_def
        getWorkDurationSeconds_def serverSeconds_def)

text \<open>
  Claim C10 as stated fails for the pause: of two open pause checks only the first
  counts. The second alone would give 3200 seconds; after the first, which gives 3600,
  it adds nothing.
\<close>

theorem second_open_pause_counterexample:
  "isActivePause (mkCheck ''pause'' None (moment ''2024-01-01T09:06:40Z'') None)
   \<and> calculateActivePauseSeconds sampleDates
        [mkCheck ''pause'' None (moment ''2024-01-01T09:06:40Z'') None] 1704103200000 = 3200
   \<and> calculateActivePauseSeconds sampleDates
        [mkCheck ''pause'' None (moment ''2024-01-01T09:00:00Z'') None] 1704103200000 = 3600
   \<and> calculateActivePauseSeconds sampleDates
        [mkCheck ''pause'' None (moment ''2024-01-01T09:00:00Z'') None,
         mkCheck ''pause'' None (moment ''2024-01-01T09:06:40Z'') None] 1704103200000 = 3600"
  by (simp add: mkCheck_def moment_def sampleDates_def parseDate_def truthy_def moment_date_def
        toLowerCase_def toLowerChar_def calculateActivePauseSeconds_def isActivePause_def)

section \<open>Cache invalidation reaches every listener\<close>

lemma forEach_listenerCallback:
  "forEach listenerCallback ls s = (Return (), s\<lparr>invoked := invoked s @ map lid ls\<rparr>)"
proof (induction ls arbitrary: s)
  case Nil
  then show ?case by simp
next
  case (Cons l ls)
  then show ?case by (simp add: listenerCallback_def invokeListener_def)
qed

lemma clearWorkStatusCache_eq:
  "clearWorkStatusCache s =
     (Return (), s\<lparr>workStatusCache := None, lastWorkStatusFetch := 0,
                   invoked := invoked s @ map lid (statusChangeListeners s)\<rparr>)"
  by (simp add: clearWorkStatusCache_def forEach_listenerCallback)

text \<open>
  Claim C7. \<open>clearWorkStatusCache\<close> always empties the cache, calls every registered
  listener once, in order, whether or not listeners before it threw, and returns
  normally: no listener's error reaches its caller.
\<close>

theorem invalidate_notifies_every_listener:
  "clearWorkStatusCache s =
     (Return (), s\<lparr>workStatusCache := None, lastWorkStatusFetch := 0,
                   invoked := invoked s @ map lid (statusChangeListeners s)\<rparr>)"
  by (rule clearWorkStatusCache_eq)

text \<open>
  Of two listeners the first throws: both are called and the invalidation returns. A
  \<open>forEach\<close> without the \<open>try\<close>/\<open>catch\<close> around the call would have thrown.
\<close>

theorem invalidate_notifies_every_listener_witness:
  "fst (clearWorkStatusCache cachedState) = Return ()
   \<and> invoked (snd (clearWorkStatusCache cachedState)) = [1, 2]
   \<and> workStatusCache (snd (clearWorkStatusCache cachedState)) = None
   \<and> fst (forEach invokeListener twoListeners cachedState) = Throw (ListenerError 1)"
  using invalidate_notifies_every_listener [of cachedState]
  by (simp add: cachedState_def twoListeners_def initialState_def invokeListener_def)

section \<open>The cache is fresh for 30 seconds after a fetch\<close>








section \<open>A failed status fetch\<close>

lemma getWorkStatus_miss:
  assumes "workStatusCache s = None \<or> CACHE_DURATION_MS \<le> now - lastWorkStatusFetch s"
  shows "getWorkStatus now net s =
     (case fetchWorkStatus net s of
        (Return status, s1) \<Rightarrow>
          (Some status, s1\<lparr>workStatusCache := Some status, lastWorkStatusFetch := now\<rparr>)
      | (Throw e, s1) \<Rightarrow> (None, s1\<lparr>workStatusCache := None, lastWorkStatusFetch := 0\<rparr>))"
  using assms by (auto simp: getWorkStatus_def)






section \<open>What a status request leaves unchanged\<close>

lemma getToken_changes:
  assumes "getToken s = (tok, s1)"
  shows "\<exists>t. s1 = s\<lparr>token := t\<rparr>"
proof -
  from assms consider "s1 = s" | "s1 = s\<lparr>token := storedToken (globalSettings s)\<rparr>"
    by (auto simp: getToken_def split: if_splits)
  then show ?thesis
  proof cases
    case 1
    then have "s1 = s\<lparr>token := token s\<rparr>" by simp
    then show ?thesis by blast
  next
    case 2
    then show ?thesis by blast
  qed
qed

lemma makeAuthenticatedRequest_changes:
  assumes "makeAuthenticatedRequest endpoint net s = (r, s2)"
  shows "\<exists>t q. s2 = s\<lparr>token := t, requests := q\<rparr>"
proof -
  obtain tok s1 where g: "getToken s = (tok, s1)" by (cases "getToken s")
  then obtain t where s1: "s1 = s\<lparr>token := t\<rparr>" using getToken_changes by blast
  show ?thesis
  proof (cases "truthy tok")
    case True
    with assms g have "s2 = s1\<lparr>requests := requests s1 @ [endpoint]\<rparr>"
      by (simp add: makeAuthenticatedRequest_def fetch_def)
    with s1 have "s2 = s\<lparr>token := t, requests := requests s @ [endpoint]\<rparr>" by simp
    then show ?thesis by blast
  next
    case False
    with assms g have "s2 = s1" by (simp add: makeAuthenticatedRequest_def)
    with s1 have "s2 = s\<lparr>token := t, requests := requests s\<rparr>" by simp
    then show ?thesis by blast
  qed
qed

lemma fetchWorkStatus_state:
  "snd (fetchWorkStatus net s) = snd (makeAuthenticatedRequest ''/security/me'' net s)"
proof (cases "makeAuthenticatedRequest ''/security/me'' net s")
  case (Pair c s1)
  then show ?thesis
    by (cases c) (simp_all add: fetchWorkStatus_def split: option.splits list.splits)
qed

lemma fetchWorkStatus_changes:
  assumes "fetchWorkStatus net s = (r, s2)"
  shows "\<exists>t q. s2 = s\<lparr>token := t, requests := q\<rparr>"
proof -
  obtain c s1 where m: "makeAuthenticatedRequest ''/security/me'' net s = (c, s1)"
    by (cases "makeAuthenticatedRequest ''/security/me'' net s")
  have "s2 = s1" using fetchWorkStatus_state [of net s] assms m by simp
  with makeAuthenticatedRequest_changes [OF m] show ?thesis by simp
qed

lemma getWorkStatus_changes:
  assumes "getWorkStatus now net s = (r, s2)"
  shows "\<exists>t q c l. s2 = s\<lparr>token := t, requests := q, workStatusCache := c,
                             lastWorkStatusFetch := l\<rparr>"
proof (cases "workStatusCache s = None \<or> CACHE_DURATION_MS \<le> now - lastWorkStatusFetch s")
  case False
  then have "s2 = s" using assms by (auto simp: getWorkStatus_def)
  then have "s2 = s\<lparr>token := token s, requests := requests s,
      workStatusCache := workStatusCache s, lastWorkStatusFetch := lastWorkStatusFetch s\<rparr>"
    by simp
  then show ?thesis by blast
next
  case True
  obtain c s0 where f: "fetchWorkStatus net s = (c, s0)" by (cases "fetchWorkStatus net s")
  from fetchWorkStatus_changes [OF f] obtain t q
    where s0: "s0 = s\<lparr>token := t, requests := q\<rparr>" by blast
  show ?thesis
  proof (cases c)
    case (Return v)
    with assms f have "s2 = s0\<lparr>workStatusCache := Some v, lastWorkStatusFetch := now\<rparr>"
      by (auto simp: getWorkStatus_miss [OF True])
    with s0 have "s2 = s\<lparr>token := t, requests := q, workStatusCache := Some v,
        lastWorkStatusFetch := now\<rparr>" by simp
    then show ?thesis by blast
  next
    case (Throw e)
    with assms f have "s2 = s0\<lparr>workStatusCache := None, lastWorkStatusFetch := 0\<rparr>"
      by (auto simp: getWorkStatus_miss [OF True])
    with s0 have "s2 = s\<lparr>token := t, requests := q, workStatusCache := None,
        lastWorkStatusFetch := 0\<rparr>" by simp
    then show ?thesis by blast
  qed
qed

lemma getWorkStatus_fields:
  assumes "getWorkStatus now net s = (r, s2)"
  shows "statusChangeListeners s2 = statusChangeListeners s
    \<and> pollingInterval s2 = pollingInterval s
    \<and> lastKnownStatus s2 = lastKnownStatus s
    \<and> globalSettings s2 = globalSettings s
    \<and> timers s2 = timers s
    \<and> nextTimer s2 = nextTimer s
    \<and> invoked s2 = invoked s
    \<and> pendingChecks s2 = pendingChecks s"
proof -
  from getWorkStatus_changes [OF assms] obtain t q c l
    where "s2 = s\<lparr>token := t, requests := q, workStatusCache := c,
                   lastWorkStatusFetch := l\<rparr>" by blast
  then show ?thesis by simp
qed

section \<open>One notification per detected flip\<close>

lemma flips_Cons: "flips known (ob # obs) = flips known [ob] + flips (knownAfter known ob) obs"
  by (cases known; cases ob) (simp_all add: knownAfter_def)

lemma checkForStatusChanges_tick:
  "invoked (checkForStatusChanges now net s)
     = invoked s @ concat (replicate (flips (lastKnownStatus s) [observed now net s])
                              (map lid (statusChangeListeners s)))
   \<and> lastKnownStatus (checkForStatusChanges now net s)
     = knownAfter (lastKnownStatus s) (observed now net s)
   \<and> statusChangeListeners (checkForStatusChanges now net s) = statusChangeListeners s"
proof -
  obtain r s1 where g: "getWorkStatus now net s = (r, s1)" by (cases "getWorkStatus now net s")
  note f = getWorkStatus_fields [OF g]
  show ?thesis
  proof (cases r)
    case None
    with g f show ?thesis
      by (simp add: checkForStatusChanges_def observed_def knownAfter_def)
  next
    case (Some status)
    show ?thesis
    proof (cases "lastKnownStatus s")
      case None
      with Some g f show ?thesis
        by (simp add: checkForStatusChanges_def observed_def knownAfter_def)
    next
      case (Some k)
      with \<open>r = Some status\<close> g f show ?thesis
        by (simp add: checkForStatusChanges_def observed_def knownAfter_def
              clearWorkStatusCache_eq)
    qed
  qed
qed

lemma pollLoop_invoked:
  "invoked (pollLoop ticks s)
     = invoked s @ concat (replicate (flips (lastKnownStatus s) (observations ticks s))
                              (map lid (statusChangeListeners s)))
   \<and> statusChangeListeners (pollLoop ticks s) = statusChangeListeners s"
proof (induction ticks arbitrary: s)
  case Nil
  then show ?case by simp
next
  case (Cons tick ticks)
  obtain now net where tick: "tick = (now, net)" by (cases tick)
  define s' where "s' = checkForStatusChanges now net s"
  define ls where "ls = map lid (statusChangeListeners s)"
  define a where "a = flips (lastKnownStatus s) [observed now net s]"
  define b where "b = flips (lastKnownStatus s') (observations ticks s')"
  have one: "invoked s' = invoked s @ concat (replicate a ls)"
    and known: "lastKnownStatus s' = knownAfter (lastKnownStatus s) (observed now net s)"
    and same: "statusChangeListeners s' = statusChangeListeners s"
    using checkForStatusChanges_tick [of now net s] by (simp_all add: s'_def ls_def a_def)
  have rest: "invoked (pollLoop ticks s') = invoked s' @ concat (replicate b ls)"
    and same': "statusChangeListeners (pollLoop ticks s') = statusChangeListeners s'"
    using Cons.IH [of s'] by (simp_all add: b_def ls_def same)
  have obs: "observations (tick # ticks) s = observed now net s # observations ticks s'"
    by (simp add: tick s'_def)
  have count: "flips (lastKnownStatus s) (observations (tick # ticks) s) = a + b"
    unfolding obs a_def b_def known by (rule flips_Cons)
  have run: "pollLoop (tick # ticks) s = pollLoop ticks s'"
    by (simp add: tick s'_def)
  have "invoked (pollLoop (tick # ticks) s) = invoked s @ concat (replicate (a + b) ls)"
    unfolding run rest one by (simp add: replicate_add)
  moreover have "statusChangeListeners (pollLoop (tick # ticks) s) = statusChangeListeners s"
    unfolding run same' same ..
  ultimately show ?case
    unfolding count ls_def by simp
qed

text \<open>
  Claim C2. Over any sequence of ticks of the poll loop, each registered listener is
  called once for every flip of the observed status and not otherwise: the calls made
  are the listeners, in order, repeated as many times as the observations flip. Tick by
  tick: a tick that observes the status known already, the first status ever observed,
  and a tick whose status request fails call no listener; a tick that observes a status
  other than the one known calls every listener once.
\<close>

theorem one_notification_per_flip:
  "invoked (pollLoop ticks s)
     = invoked s @ concat (replicate (flips (lastKnownStatus s) (observations ticks s))
                              (map lid (statusChangeListeners s)))
   \<and> (\<forall>now net. lastKnownStatus s = None \<or> observed now net s = None
          \<or> observed now net s = lastKnownStatus s
        \<longrightarrow> invoked (checkForStatusChanges now net s) = invoked s)
   \<and> (\<forall>now net k x. lastKnownStatus s = Some k \<and> observed now net s = Some x \<and> k \<noteq> x
        \<longrightarrow> invoked (checkForStatusChanges now net s)
              = invoked s @ map lid (statusChangeListeners s))"
proof -
  have same: "invoked (checkForStatusChanges now net s) = invoked s"
    if "lastKnownStatus s = None \<or> observed now net s = None
          \<or> observed now net s = lastKnownStatus s" for now net
  proof -
    have "flips (lastKnownStatus s) [observed now net s] = 0"
      using that by (cases "lastKnownStatus s"; cases "observed now net s") auto
    then show ?thesis using checkForStatusChanges_tick [of now net s] by simp
  qed
  have flip: "invoked (checkForStatusChanges now net s)
              = invoked s @ map lid (statusChangeListeners s)"
    if "lastKnownStatus s = Some k" "observed now net s = Some x" "k \<noteq> x" for now net k x
    using that checkForStatusChanges_tick [of now net s] by simp
  from pollLoop_invoked [of ticks s] same flip show ?thesis by blast
qed

text \<open>
  Six ticks observe \<open>online, online, paused, (failure), paused, online\<close>: two flips,
  and each of the two listeners is called twice.
\<close>

theorem one_notification_per_flip_witness:
  "observations sampleTicks listeningState
     = [Some online, Some online, Some paused, None, Some paused, Some online]
   \<and> flips None (observations sampleTicks listeningState) = 2
   \<and> invoked (pollLoop sampleTicks listeningState) = [1, 2, 1, 2]"
proof -
  have obs: "observations sampleTicks listeningState
     = [Some online, Some online, Some paused, None, Some paused, Some online]"
    by code_simp
  have known: "lastKnownStatus listeningState = None"
    by code_simp
  have quiet: "invoked listeningState = []"
    by code_simp
  have who: "map lid (statusChangeListeners listeningState) = [1, 2]"
    by code_simp
  have two: "flips None [Some online, Some online, Some paused, None, Some paused, Some online] = 2"
    by code_simp
  have calls: "[] @ concat (replicate 2 [1, 2::nat]) = [1, 2, 1, 2]"
    by code_simp
  have "invoked (pollLoop sampleTicks listeningState)
      = invoked listeningState
        @ concat (replicate (flips (lastKnownStatus listeningState)
                               (observations sampleTicks listeningState))
                    (map lid (statusChangeListeners listeningState)))"
    using one_notification_per_flip [of sampleTicks listeningState] by (rule conjunct1)
  also have "\<dots> = [] @ concat (replicate 2 [1, 2])"
    by (simp only: obs known quiet who two)
  also have "\<dots> = [1, 2, 1, 2]"
    by (rule calls)
  finally have "invoked (pollLoop sampleTicks listeningState) = [1, 2, 1, 2]" .
  with obs two show ?thesis by simp
qed

section \<open>Check-in, check-out and pause invalidate the cache\<close>

lemma getToken_truthy:
  assumes "getToken s = (tok, s1)" and "truthy tok"
  shows "token s1 = tok"
  using assms by (auto simp: getToken_def truthy_def split: if_splits)

lemma getToken_again:
  assumes "getToken s = (tok, s1)" and "truthy tok"
  shows "getToken (s1\<lparr>requests := q, workStatusCache := c, lastWorkStatusFetch := l,
                      invoked := i\<rparr>)
         = (tok, s1\<lparr>requests := q, workStatusCache := c, lastWorkStatusFetch := l, invoked := i\<rparr>)"
  using assms getToken_truthy [OF assms] by (simp add: getToken_def)

lemma postAndClear_success:
  assumes "getToken s = (tok, s1)" and "truthy tok"
  shows "postAndClear endpoint (Resolves (Response True (Some d))) s
     = (Some d, s1\<lparr>requests := requests s1 @ [endpoint], workStatusCache := None,
                     lastWorkStatusFetch := 0,
                     invoked := invoked s1 @ map lid (statusChangeListeners s1)\<rparr>)"
  using assms
  by (simp add: postAndClear_def makeAuthenticatedRequest_def fetch_def clearWorkStatusCache_eq)

lemma getWorkStatus_fetches:
  assumes "getToken s = (tok, s1)" and "truthy tok" and "workStatusCache s = None"
  shows "requests (snd (getWorkStatus now net s)) = requests s @ [''/security/me'']"
proof -
  obtain t where s1: "s1 = s\<lparr>token := t\<rparr>" using getToken_changes [OF assms(1)] by blast
  obtain c s2 where f: "fetchWorkStatus net s = (c, s2)" by (cases "fetchWorkStatus net s")
  have m: "makeAuthenticatedRequest ''/security/me'' net s
      = fetch ''/security/me'' net s1"
    using assms(1,2) by (simp add: makeAuthenticatedRequest_def)
  have "s2 = snd (fetch ''/security/me'' net s1)"
    using fetchWorkStatus_state [of net s] f m by simp
  then have r: "requests s2 = requests s @ [''/security/me'']"
    using s1 by (simp add: fetch_def)
  show ?thesis
    using f r assms(3)
    by (cases c) (simp_all add: getWorkStatus_miss [of s now net])
qed

lemma postAndClear_invalidates:
  assumes "hasToken s"
  shows "fst (postAndClear endpoint (Resolves (Response True (Some d))) s) = Some d
    \<and> workStatusCache (snd (postAndClear endpoint (Resolves (Response True (Some d))) s)) = None
    \<and> lastWorkStatusFetch (snd (postAndClear endpoint (Resolves (Response True (Some d))) s)) = 0
    \<and> invoked (snd (postAndClear endpoint (Resolves (Response True (Some d))) s))
        = invoked s @ map lid (statusChangeListeners s)
    \<and> (\<forall>now net. requests (snd (getWorkStatus now net
              (snd (postAndClear endpoint (Resolves (Response True (Some d))) s))))
          = requests (snd (postAndClear endpoint (Resolves (Response True (Some d))) s))
            @ [''/security/me''])"
proof -
  obtain tok s1 where g: "getToken s = (tok, s1)" by (cases "getToken s")
  with assms have tr: "truthy tok" by (simp add: hasToken_def)
  obtain t where s1: "s1 = s\<lparr>token := t\<rparr>" using getToken_changes [OF g] by blast
  define s2 where "s2 = s1\<lparr>requests := requests s1 @ [endpoint], workStatusCache := None,
                     lastWorkStatusFetch := 0,
                     invoked := invoked s1 @ map lid (statusChangeListeners s1)\<rparr>"
  have p: "postAndClear endpoint (Resolves (Response True (Some d))) s = (Some d, s2)"
    unfolding s2_def by (rule postAndClear_success [OF g tr])
  have g2: "getToken s2 = (tok, s2)"
    unfolding s2_def by (rule getToken_again [OF g tr])
  have c2: "workStatusCache s2 = None" by (simp add: s2_def)
  have "requests (snd (getWorkStatus now net s2)) = requests s2 @ [''/security/me'']" for now net
    by (rule getWorkStatus_fetches [OF g2 tr c2])
  moreover have "invoked s2 = invoked s @ map lid (statusChangeListeners s)"
    by (simp add: s2_def s1)
  moreover have "lastWorkStatusFetch s2 = 0" by (simp add: s2_def)
  ultimately show ?thesis using c2 by (simp add: p)
qed

text \<open>
  Claim C4, as amended. When the service holds a token and the remote service answers a
  check-in, a check-out or a pause with a 2xx response whose body is JSON, the operation
  returns that body and has, before it returns, emptied the cache and called every
  registered listener; a call of \<open>getWorkStatus\<close> on the state it leaves sends a
  request, whatever the time: it cannot return a value cached before the operation.
\<close>

theorem mutation_invalidates_cache:
  assumes "hasToken s"
    and "net = Resolves (Response True (Some d))"
    and "r \<in> {checkInOp employee net s, checkOutOp employee net s,
               pauseOp employee workBreakId net s}"
  shows "fst r = Some d
    \<and> workStatusCache (snd r) = None
    \<and> lastWorkStatusFetch (snd r) = 0
    \<and> invoked (snd r) = invoked s @ map lid (statusChangeListeners s)
    \<and> (\<forall>now net'. requests (snd (getWorkStatus now net' (snd r)))
          = requests (snd r) @ [''/security/me''])"
proof -
  from assms(3) obtain endpoint where "r = postAndClear endpoint net s"
    by (auto simp: checkInOp_def checkOutOp_def pauseOp_def)
  then show ?thesis
    using postAndClear_invalidates [OF assms(1), of endpoint d] assms(2) by simp
qed

text \<open>
  A check-in on a service that has \<open>online\<close> cached: both listeners are called, the cache
  is empty, and the next status call sends a request.
\<close>

theorem mutation_invalidates_cache_witness:
  "fst (checkInOp ''emp'' (Resolves (Response True (Some ''done''))) cachedState) = Some ''done''
   \<and> workStatusCache (snd (checkInOp ''emp'' (Resolves (Response True (Some ''done''))) cachedState))
       = None
   \<and> invoked (snd (checkInOp ''emp'' (Resolves (Response True (Some ''done''))) cachedState))
       = [1, 2]
   \<and> requests (snd (getWorkStatus 100000 (meReply paused)
          (snd (checkInOp ''emp'' (Resolves (Response True (Some ''done''))) cachedState))))
       = [''/employees/emp/check-in'', ''/security/me'']"
proof -
  let ?net = "Resolves (Response True (Some ''done''))"
  let ?r = "checkInOp ''emp'' ?net cachedState"
  have tok: "hasToken cachedState"
    by code_simp
  have mem: "?r \<in> {checkInOp ''emp'' ?net cachedState, checkOutOp ''emp'' ?net cachedState,
                    pauseOp ''emp'' ''lunch'' ?net cachedState}"
    by simp
  note inv = mutation_invalidates_cache [OF tok refl mem]
  have before: "invoked cachedState @ map lid (statusChangeListeners cachedState) = [1, 2]"
    by code_simp
  have sent: "requests (snd ?r) = [''/employees/emp/check-in'']"
    by code_simp
  from inv before sent show ?thesis by simp
qed

text \<open>
  Claim C4 as stated fails for a 2xx response whose body is not JSON: \<open>response.json()\<close>
  rejects before the cache is cleared, so the operation returns \<open>null\<close>, no listener is
  called, the cache keeps the status fetched before the operation, and the next status
  call returns that status without a request.
\<close>

theorem unparsed_success_counterexample:
  "fst (checkInOp ''emp'' (Resolves (Response True (None :: string option))) cachedState) = None
   \<and> workStatusCache (snd (checkInOp ''emp'' (Resolves (Response True (None :: string option)))
          cachedState)) = Some (statusOf online)
   \<and> invoked (snd (checkInOp ''emp'' (Resolves (Response True (None :: string option)))
          cachedState)) = []
   \<and> getWorkStatus 100000 (meReply paused)
        (snd (checkInOp ''emp'' (Resolves (Response True (None :: string option))) cachedState))
       = (Some (statusOf online),
          snd (checkInOp ''emp'' (Resolves (Response True (None :: string option))) cachedState))"
  by code_simp

section \<open>Failed remote calls change nothing\<close>

lemma postAndClear_failed:
  assumes "failedCall net"
  shows "fst (postAndClear endpoint net s) = None
    \<and> (\<exists>t q. snd (postAndClear endpoint net s) = s\<lparr>token := t, requests := q\<rparr>)"
proof -
  obtain c s1 where m: "makeAuthenticatedRequest endpoint net s = (c, s1)"
    by (cases "makeAuthenticatedRequest endpoint net s")
  have bad: "c = Return response \<Longrightarrow> \<not> ok response" for response
    using m assms
    by (auto simp: makeAuthenticatedRequest_def fetch_def failedCall_def
          split: prod.splits if_splits Fetch.splits)
  have "postAndClear endpoint net s = (None, s1)"
    using m bad by (cases c) (simp_all add: postAndClear_def)
  then show ?thesis using makeAuthenticatedRequest_changes [OF m] by simp
qed

lemma login_failed:
  assumes "failedCall net"
  shows "login em pw net s = (False, s\<lparr>requests := requests s @ [''/security/login'']\<rparr>)"
  using assms
  by (cases net) (simp_all add: login_def fetch_def failedCall_def)

text \<open>
  Claim C5. On a failed remote call (a network error or a response that is not 2xx), a
  check-in, a check-out or a pause returns \<open>null\<close> and leaves the cached status and its
  fetch time as they were, calls no listener, and changes nothing in the state but the
  record of requests sent (and the token read from the settings into memory); a login
  returns \<open>false\<close> and changes nothing but the record of requests sent: no token and no
  credentials are stored, and polling is not started.
\<close>

theorem failed_call_changes_nothing:
  "(failedCall net
      \<and> r \<in> {checkInOp employee net s, checkOutOp employee net s,
               pauseOp employee workBreakId net s}
     \<longrightarrow> fst r = None
         \<and> workStatusCache (snd r) = workStatusCache s
         \<and> lastWorkStatusFetch (snd r) = lastWorkStatusFetch s
         \<and> invoked (snd r) = invoked s
         \<and> (\<exists>t q. snd r = s\<lparr>token := t, requests := q\<rparr>))
   \<and> (failedCall lnet
     \<longrightarrow> login em pw lnet s = (False, s\<lparr>requests := requests s @ [''/security/login'']\<rparr>))"
proof -
  have ops: "fst r = None
         \<and> workStatusCache (snd r) = workStatusCache s
         \<and> lastWorkStatusFetch (snd r) = lastWorkStatusFetch s
         \<and> invoked (snd r) = invoked s
         \<and> (\<exists>t q. snd r = s\<lparr>token := t, requests := q\<rparr>)"
    if "failedCall net"
       "r \<in> {checkInOp employee net s, checkOutOp employee net s,
               pauseOp employee workBreakId net s}"
  proof -
    from that(2) obtain endpoint where r: "r = postAndClear endpoint net s"
      by (auto simp: checkInOp_def checkOutOp_def pauseOp_def)
    from postAndClear_failed [OF that(1), of endpoint s] obtain t q
      where "fst r = None" and s: "snd r = s\<lparr>token := t, requests := q\<rparr>"
      unfolding r by blast
    moreover from s have "workStatusCache (snd r) = workStatusCache s"
      "lastWorkStatusFetch (snd r) = lastWorkStatusFetch s" "invoked (snd r) = invoked s"
      by simp_all
    ultimately show ?thesis by blast
  qed
  have first: "failedCall net
      \<and> r \<in> {checkInOp employee net s, checkOutOp employee net s,
               pauseOp employee workBreakId net s}
     \<longrightarrow> fst r = None
         \<and> workStatusCache (snd r) = workStatusCache s
         \<and> lastWorkStatusFetch (snd r) = lastWorkStatusFetch s
         \<and> invoked (snd r) = invoked s
         \<and> (\<exists>t q. snd r = s\<lparr>token := t, requests := q\<rparr>)"
    by (intro impI, elim conjE) (rule ops)
  have second: "failedCall lnet
     \<longrightarrow> login em pw lnet s = (False, s\<lparr>requests := requests s @ [''/security/login'']\<rparr>)"
    by (intro impI) (rule login_failed)
  from first second show ?thesis by (rule conjI)
qed

text \<open>
  A check-out answered with an error status and a login that meets a network error.
\<close>

theorem failed_call_changes_nothing_witness:
  "checkOutOp ''emp'' (Resolves (Response False (Some ''busy''))) cachedState
     = (None, cachedState\<lparr>requests := [''/employees/emp/check-out'']\<rparr>)
   \<and> workStatusCache (snd (checkOutOp ''emp'' (Resolves (Response False (Some ''busy'')))
        cachedState)) = Some (statusOf online)
   \<and> login ''ann@example.org'' ''wrong'' Rejects cachedState
     = (False, cachedState\<lparr>requests := [''/security/login'']\<rparr>)"
proof -
  let ?net = "Resolves (Response False (Some ''busy''))"
  have f1: "failedCall ?net" by (simp add: failedCall_def)
  have f2: "failedCall (Rejects :: LoginBody Fetch)" by (simp add: failedCall_def)
  have mem: "checkOutOp ''emp'' ?net cachedState
     \<in> {checkInOp ''emp'' ?net cachedState, checkOutOp ''emp'' ?net cachedState,
        pauseOp ''emp'' ''lunch'' ?net cachedState}"
    by simp
  note t = failed_call_changes_nothing [of ?net "checkOutOp ''emp'' ?net cachedState" "''emp''"
      cachedState "''lunch''" Rejects "''ann@example.org''" "''wrong''"]
  have a: "checkOutOp ''emp'' ?net cachedState
     = (None, cachedState\<lparr>requests := [''/employees/emp/check-out'']\<rparr>)"
    by code_simp
  have b: "workStatusCache cachedState = Some (statusOf online)"
    by code_simp
  have c: "requests cachedState = []"
    by code_simp
  from t f1 mem have
    "workStatusCache (snd (checkOutOp ''emp'' ?net cachedState)) = workStatusCache cachedState"
    by blast
  moreover from t f2 have "login ''ann@example.org'' ''wrong'' Rejects cachedState
     = (False, cachedState\<lparr>requests := requests cachedState @ [''/security/login'']\<rparr>)"
    by blast
  ultimately show ?thesis using a b c by simp
qed

section \<open>At most one poll loop\<close>

lemma pollInv_frame:
  assumes "pollingInterval s' = pollingInterval s \<and> timers s' = timers s
           \<and> nextTimer s' = nextTimer s"
  shows "pollInv s' = pollInv s"
  using assms by (simp add: pollInv_def split: option.splits)

lemma pollInv_same:
  assumes "pollInv s"
    and "pollingInterval s' = pollingInterval s \<and> timers s' = timers s
         \<and> nextTimer s' = nextTimer s"
  shows "pollInv s'"
  using assms(1) pollInv_frame [OF assms(2)] by simp

lemma stopPolling_stops:
  assumes "pollInv s"
  shows "timers (stopPolling s) = [] \<and> pollingInterval (stopPolling s) = None
         \<and> nextTimer (stopPolling s) = nextTimer s"
  using assms by (cases "pollingInterval s") (simp_all add: stopPolling_def pollInv_def)

lemma startPolling_starts:
  assumes "pollInv s"
  shows "timers (startPolling s) = [nextTimer s]
         \<and> pollingInterval (startPolling s) = Some (nextTimer s)
         \<and> nextTimer (startPolling s) = Suc (nextTimer s)"
  using stopPolling_stops [OF assms] by (simp add: startPolling_def Let_def)

lemma pollInv_stopPolling: "pollInv s \<Longrightarrow> pollInv (stopPolling s)"
  using stopPolling_stops [of s] by (simp add: pollInv_def)

lemma pollInv_startPolling: "pollInv s \<Longrightarrow> pollInv (startPolling s)"
  using startPolling_starts [of s] by (simp add: pollInv_def)

lemma getToken_poll:
  "pollingInterval (snd (getToken s)) = pollingInterval s \<and> timers (snd (getToken s)) = timers s
   \<and> nextTimer (snd (getToken s)) = nextTimer s"
  by (simp add: getToken_def)

lemma getWorkStatus_poll:
  "pollingInterval (snd (getWorkStatus now net s)) = pollingInterval s
   \<and> timers (snd (getWorkStatus now net s)) = timers s
   \<and> nextTimer (snd (getWorkStatus now net s)) = nextTimer s"
  using getWorkStatus_fields [of now net s "fst (getWorkStatus now net s)"
      "snd (getWorkStatus now net s)"]
  by simp

lemma checkForStatusChanges_poll:
  "pollingInterval (checkForStatusChanges now net s) = pollingInterval s
   \<and> timers (checkForStatusChanges now net s) = timers s
   \<and> nextTimer (checkForStatusChanges now net s) = nextTimer s"
proof -
  obtain r s1 where g: "getWorkStatus now net s = (r, s1)" by (cases "getWorkStatus now net s")
  note f = getWorkStatus_fields [OF g]
  show ?thesis
  proof (cases r)
    case None
    with g f show ?thesis by (simp add: checkForStatusChanges_def)
  next
    case (Some status)
    with g f show ?thesis
      by (simp add: checkForStatusChanges_def clearWorkStatusCache_eq)
  qed
qed

lemma postAndClear_poll:
  "pollingInterval (snd (postAndClear endpoint net s)) = pollingInterval s
   \<and> timers (snd (postAndClear endpoint net s)) = timers s
   \<and> nextTimer (snd (postAndClear endpoint net s)) = nextTimer s"
proof -
  obtain c s1 where m: "makeAuthenticatedRequest endpoint net s = (c, s1)"
    by (cases "makeAuthenticatedRequest endpoint net s")
  from makeAuthenticatedRequest_changes [OF m] obtain t q
    where s1: "s1 = s\<lparr>token := t, requests := q\<rparr>" by blast
  show ?thesis
    using m s1
    by (cases c) (simp_all add: postAndClear_def clearWorkStatusCache_eq split: option.splits)
qed

lemma login_cases:
  "login em pw net s = (False, s\<lparr>requests := requests s @ [''/security/login'']\<rparr>)
   \<or> (\<exists>tok. login em pw net s
          = (True, startPolling (s\<lparr>requests := requests s @ [''/security/login''],
               token := tok,
               globalSettings := \<lparr>email = Some em, password = Some pw, storedToken = tok,
                                   isAuthenticated = Some True\<rparr>\<rparr>)))"
  by (auto simp: login_def fetch_def split: Fetch.splits option.splits LoginBody.splits)

lemma pollInv_login: "pollInv s \<Longrightarrow> pollInv (snd (login em pw net s))"
proof -
  assume inv: "pollInv s"
  from login_cases [of em pw net s] show ?thesis
  proof (elim disjE exE)
    assume "login em pw net s = (False, s\<lparr>requests := requests s @ [''/security/login'']\<rparr>)"
    then show ?thesis using pollInv_same [OF inv] by simp
  next
    fix tok
    assume l: "login em pw net s
          = (True, startPolling (s\<lparr>requests := requests s @ [''/security/login''],
               token := tok,
               globalSettings := \<lparr>email = Some em, password = Some pw, storedToken = tok,
                                   isAuthenticated = Some True\<rparr>\<rparr>))"
    have "pollInv (s\<lparr>requests := requests s @ [''/security/login''],
               token := tok,
               globalSettings := \<lparr>email = Some em, password = Some pw, storedToken = tok,
                                   isAuthenticated = Some True\<rparr>\<rparr>)"
      by (rule pollInv_same [OF inv]) simp
    then show ?thesis unfolding l by (simp add: pollInv_startPolling)
  qed
qed

lemma login_success_polls:
  assumes "pollInv s" and "fst (login em pw net s)"
  shows "\<exists>h. pollingInterval (snd (login em pw net s)) = Some h
            \<and> timers (snd (login em pw net s)) = [h]"
proof -
  from login_cases [of em pw net s] assms(2) obtain tok where l: "login em pw net s
          = (True, startPolling (s\<lparr>requests := requests s @ [''/security/login''],
               token := tok,
               globalSettings := \<lparr>email = Some em, password = Some pw, storedToken = tok,
                                   isAuthenticated = Some True\<rparr>\<rparr>))"
    by auto
  have "pollInv (s\<lparr>requests := requests s @ [''/security/login''],
               token := tok,
               globalSettings := \<lparr>email = Some em, password = Some pw, storedToken = tok,
                                   isAuthenticated = Some True\<rparr>\<rparr>)"
    by (rule pollInv_same [OF assms(1)]) simp
  from startPolling_starts [OF this] show ?thesis unfolding l by simp
qed

lemma pollInv_getToken: "pollInv s \<Longrightarrow> pollInv (snd (getToken s))"
  using pollInv_frame [OF getToken_poll] by simp

lemma pollInv_autoLogin: "pollInv s \<Longrightarrow> pollInv (snd (autoLogin net s))"
  by (auto simp: autoLogin_def pollInv_login split: option.splits)

lemma pollInv_performLogin: "pollInv s \<Longrightarrow> pollInv (snd (performLogin em pw net s))"
proof -
  assume inv: "pollInv s"
  have rest: "pollInv (snd (case getToken s of
             (tok, s1) \<Rightarrow> if truthy tok then (True, s1) else autoLogin net s1))"
    using pollInv_getToken [OF inv] pollInv_autoLogin [of "snd (getToken s)" net]
    by (cases "getToken s") auto
  show ?thesis
    using rest pollInv_login [OF inv]
    by (cases em; cases pw) (simp_all add: performLogin_def)
qed

lemma pollInv_logout: "pollInv s \<Longrightarrow> pollInv (logout s)"
proof -
  assume inv: "pollInv s"
  have "pollInv (s\<lparr>token := None,
          globalSettings :=
            \<lparr>email = None, password = None, storedToken = None,
             isAuthenticated = Some False\<rparr>\<rparr>)"
    by (rule pollInv_same [OF inv]) simp
  then show ?thesis unfolding logout_def by (rule pollInv_stopPolling)
qed

lemma pollInv_initializePolling: "pollInv s \<Longrightarrow> pollInv (initializePolling s)"
  using pollInv_getToken [of s] pollInv_startPolling [of "snd (getToken s)"]
  by (cases "getToken s") (auto simp: initializePolling_def)

lemma pollInv_step: "pollInv s \<Longrightarrow> pollInv (step ev s)"
proof (cases ev)
  case (Login em pw net)
  assume "pollInv s" then show ?thesis using Login by (simp add: pollInv_login)
next
  case (PerformLogin em pw net)
  assume "pollInv s" then show ?thesis using PerformLogin by (simp add: pollInv_performLogin)
next
  case Logout
  assume "pollInv s" then show ?thesis using Logout by (simp add: pollInv_logout)
next
  case InitializePolling
  assume "pollInv s" then show ?thesis
    using InitializePolling by (simp add: pollInv_initializePolling)
next
  case (GetWorkStatus now net)
  assume "pollInv s" then show ?thesis
    using GetWorkStatus pollInv_frame [OF getWorkStatus_poll, of now net s] by simp
next
  case (CheckIn employee net)
  assume "pollInv s" then show ?thesis
    using CheckIn by (simp add: checkInOp_def pollInv_frame [OF postAndClear_poll])
next
  case (CheckOut employee net)
  assume "pollInv s" then show ?thesis
    using CheckOut by (simp add: checkOutOp_def pollInv_frame [OF postAndClear_poll])
next
  case (Pause employee wb net)
  assume "pollInv s" then show ?thesis
    using Pause by (simp add: pauseOp_def pollInv_frame [OF postAndClear_poll])
next
  case (AddListener l)
  assume "pollInv s" then show ?thesis
    unfolding AddListener by (rule pollInv_same) (simp add: addStatusChangeListener_def)
next
  case (RemoveListener l)
  assume "pollInv s" then show ?thesis
    unfolding RemoveListener by (rule pollInv_same) (simp add: removeStatusChangeListener_def)
next
  case (TimerFires h now net)
  assume "pollInv s" then show ?thesis
    using TimerFires pollInv_frame [OF checkForStatusChanges_poll, of now net s] by simp
next
  case (PendingCheck now net)
  assume inv: "pollInv s"
  have "pollInv (s\<lparr>pendingChecks := pendingChecks s - 1\<rparr>)"
    by (rule pollInv_same [OF inv]) simp
  then show ?thesis
    using PendingCheck inv
      pollInv_frame [OF checkForStatusChanges_poll, of now net
        "s\<lparr>pendingChecks := pendingChecks s - 1\<rparr>"]
    by simp
qed

lemma pollInv_run: "pollInv s \<Longrightarrow> pollInv (run events s)"
  unfolding run_def by (induction events arbitrary: s) (simp_all add: pollInv_step)

lemma pollInv_initial: "pollInv (initialState gs)"
  by (simp add: pollInv_def initialState_def)

text \<open>
  Claim C8. In every state the service can reach from its initial state, by any sequence
  of method calls, timer callbacks and pending status checks, at most one interval timer
  is active, and it is the one the field \<open>pollingInterval\<close> holds. Starting the poll loop
  in such a state leaves exactly the new timer active: the timer of the loop before is
  cleared and its callback does nothing any more. A login that succeeds leaves the poll
  loop running. A logout leaves no timer active and clears the token in memory and the
  token and credentials in the settings.
\<close>

theorem one_poll_loop:
  assumes "s = run events (initialState gs)"
  shows "length (timers s) \<le> 1
    \<and> set (timers s) = set_option (pollingInterval s)
    \<and> timers (startPolling s) = [nextTimer s]
    \<and> pollingInterval (startPolling s) = Some (nextTimer s)
    \<and> (\<forall>h now net. pollingInterval s = Some h
          \<longrightarrow> h \<notin> set (timers (startPolling s))
              \<and> step (TimerFires h now net) (startPolling s) = startPolling s)
    \<and> (\<forall>em pw net. fst (login em pw net s)
          \<longrightarrow> (\<exists>h. pollingInterval (snd (login em pw net s)) = Some h
                   \<and> timers (snd (login em pw net s)) = [h]))
    \<and> timers (logout s) = []
    \<and> pollingInterval (logout s) = None
    \<and> token (logout s) = None
    \<and> globalSettings (logout s)
        = \<lparr>email = None, password = None, storedToken = None, isAuthenticated = Some False\<rparr>"
proof -
  have inv: "pollInv s"
    unfolding assms by (rule pollInv_run) (rule pollInv_initial)
  have one: "length (timers s) \<le> 1" and held: "set (timers s) = set_option (pollingInterval s)"
    using inv by (auto simp: pollInv_def split: option.splits)
  note start = startPolling_starts [OF inv]
  have old: "h \<notin> set (timers (startPolling s))
      \<and> step (TimerFires h now net) (startPolling s) = startPolling s"
    if "pollingInterval s = Some h" for h now net
  proof -
    from inv that have "h < nextTimer s" by (simp add: pollInv_def)
    then have "h \<notin> set (timers (startPolling s))" using start by simp
    then show ?thesis by simp
  qed
  have "pollInv (s\<lparr>token := None,
          globalSettings :=
            \<lparr>email = None, password = None, storedToken = None,
             isAuthenticated = Some False\<rparr>\<rparr>)"
    by (rule pollInv_same [OF inv]) simp
  from stopPolling_stops [OF this]
  have out: "timers (logout s) = []" "pollingInterval (logout s) = None"
    by (simp_all add: logout_def)
  have cleared: "token (logout s) = None"
    "globalSettings (logout s)
        = \<lparr>email = None, password = None, storedToken = None, isAuthenticated = Some False\<rparr>"
    by (simp_all add: logout_def stopPolling_def split: option.splits)
  from one held start old login_success_polls [OF inv] out cleared show ?thesis
    by blast
qed

text \<open>
  Two logins with a call of \<open>initializePolling\<close> between them start the loop three
  times: only the third timer is active afterwards.
\<close>

theorem one_poll_loop_witness:
  "timers (run sampleEvents (initialState noSettings)) = [2]
   \<and> pollingInterval (run sampleEvents (initialState noSettings)) = Some 2
   \<and> timers (startPolling (run sampleEvents (initialState noSettings))) = [3]
   \<and> timers (logout (run sampleEvents (initialState noSettings))) = []
   \<and> token (logout (run sampleEvents (initialState noSettings))) = None"
proof -
  let ?s = "run sampleEvents (initialState noSettings)"
  note loop = one_poll_loop [OF refl, of sampleEvents noSettings]
  have now: "timers ?s = [2]" "pollingInterval ?s = Some 2" "nextTimer ?s = 3"
    by code_simp+
  from loop have "timers (startPolling ?s) = [nextTimer ?s]"
    and "timers (logout ?s) = []" and "token (logout ?s) = None"
    by blast+
  with now show ?thesis by simp
qed

end
